theory Spec2Isabelle
  imports Complex_Main "HOL-Library.Word" "HOL-Library.Sublist" "HOL-Library.Stream"
begin

section \<open>Data model of \<open>src/PrismaTC/main.c\<close>\<close>

text \<open>
  C \<open>int\<close> is a 32-bit two's complement integer, modelled as \<open>32 word\<close>: \<open>+\<close> and
  \<open>-\<close> wrap around (what the x86 targets of this Windows program do on signed overflow,
  which the C standard leaves undefined), and every comparison of the source reads both
  sides with \<open>sint\<close>. \<open>WORD\<close> is the 16-bit unsigned virtual-key code of
  \<open>windows.h\<close>; \<open>char\<close> is the signed 8-bit character of the Windows compilers.
\<close>

type_synonym int32 = "32 word"
type_synonym WORD = "16 word"
type_synonym cchar = "8 word"

definition MAX_KEYS :: nat where
  "MAX_KEYS = 9"

definition MAX_OBJECTS_PER_COLUMN :: nat where
  "MAX_OBJECTS_PER_COLUMN = 9999"

text \<open>\<open>struct HitObject\<close>; the fields \<open>x\<close> and \<open>y\<close> are named \<open>obj_x\<close> and \<open>obj_y\<close>.\<close>

record HitObject =
  obj_x :: int32
  obj_y :: int32
  timestamp :: int32
  object_type :: int32
  end_time :: int32

record KeyState =
  key :: WORD
  press_time :: int32
  release_time :: int32
  is_pressed :: bool

text \<open>
  \<open>SendInput\<close> is the only output of the program: the log \<open>sent\<close> lists the keyboard
  events handed to it, oldest first.
\<close>

datatype event = KeyDown WORD | KeyUp WORD

text \<open>
  The process-wide variables \<open>stopClicking\<close>, \<open>timingShift\<close>, \<open>offset\<close> and
  \<open>keyStates\<close>, together with the log of injected events.
\<close>

record World =
  stopClicking :: bool
  timingShift :: int32
  offset :: int32
  keyStates :: "KeyState list"
  sent :: "event list"

definition initial_World :: World where
  "initial_World =
     \<lparr>stopClicking = False, timingShift = 0, offset = 30,
      keyStates = replicate MAX_KEYS \<lparr>key = 0, press_time = 0, release_time = 0, is_pressed = False\<rparr>,
      sent = []\<rparr>"

definition pressKey :: "WORD \<Rightarrow> World \<Rightarrow> World" where
  "pressKey k w = w\<lparr>sent := sent w @ [KeyDown k]\<rparr>"

definition releaseKey :: "WORD \<Rightarrow> World \<Rightarrow> World" where
  "releaseKey k w = w\<lparr>sent := sent w @ [KeyUp k]\<rparr>"

subsection \<open>The stop operation\<close>

text \<open>One iteration of the loop of \<open>releaseAllKeys\<close>, at index \<open>i\<close>.\<close>

definition releaseAt :: "nat \<Rightarrow> World \<Rightarrow> World" where
  "releaseAt i w =
     (if is_pressed (keyStates w ! i)
      then (let w' = releaseKey (key (keyStates w ! i)) w
            in w'\<lparr>keyStates := (keyStates w')[i := (keyStates w' ! i)\<lparr>is_pressed := False\<rparr>]\<rparr>)
      else w)"

definition releaseAllKeys :: "World \<Rightarrow> World" where
  "releaseAllKeys w = fold releaseAt [0..<MAX_KEYS] w"

definition setStopClicking :: "bool \<Rightarrow> World \<Rightarrow> World" where
  "setStopClicking v w = releaseAllKeys (w\<lparr>stopClicking := v\<rparr>)"

definition StopProgram :: "World \<Rightarrow> bool" where
  "StopProgram w = stopClicking w"

definition setTimingShift :: "int32 \<Rightarrow> World \<Rightarrow> World" where
  "setTimingShift v w = w\<lparr>timingShift := v\<rparr>"

definition setOffset :: "int32 \<Rightarrow> World \<Rightarrow> World" where
  "setOffset v w = w\<lparr>offset := v\<rparr>"

text \<open>What the loop does to one entry: the flag is cleared, the other fields stay.\<close>

definition unpress :: "KeyState \<Rightarrow> KeyState" where
  "unpress k = k\<lparr>is_pressed := False\<rparr>"

subsection \<open>Key bindings\<close>

text \<open>
  The virtual-key codes \<open>VK_SPACE\<close> and \<open>VK_OEM_1\<close> come from \<open>windows.h\<close>, with
  the values of the Windows SDK. The table \<open>keys\<close> is an array of \<open>char\<close>: storing
  one of its entries in the \<open>WORD\<close> field \<open>key\<close> sign-extends it (\<open>scast\<close>).
\<close>

definition VK_SPACE :: cchar where
  "VK_SPACE = 0x20"

definition VK_OEM_1 :: cchar where
  "VK_OEM_1 = 0xBA"

definition keys :: "cchar list" where
  "keys = [0x41, 0x53, 0x44, 0x46, VK_SPACE, 0x4A, 0x4B, 0x4C, VK_OEM_1]"

text \<open>
  Array accesses. An index outside the array is undefined behaviour in C: the model stops
  with \<open>None\<close>.
\<close>

definition array_at :: "'a list \<Rightarrow> int \<Rightarrow> 'a option" where
  "array_at xs i = (if 0 \<le> i \<and> i < int (length xs) then Some (xs ! nat i) else None)"

definition store_key :: "KeyState list \<Rightarrow> int \<Rightarrow> WORD \<Rightarrow> KeyState list option" where
  "store_key ks i k =
     (if 0 \<le> i \<and> i < int (length ks) then Some (ks[nat i := (ks ! nat i)\<lparr>key := k\<rparr>]) else None)"

text \<open>\<open>keyStates[i].key = keys[keyIndex]\<close>\<close>

definition bind_default :: "KeyState list \<Rightarrow> int \<Rightarrow> int \<Rightarrow> KeyState list option" where
  "bind_default ks i keyIndex =
     (case array_at keys keyIndex of
        None \<Rightarrow> None
      | Some c \<Rightarrow> store_key ks i (scast c))"

text \<open>\<open>for (i = ..., keyIndex = 3; i >= 0; i--, keyIndex--)\<close>\<close>

function bindDown :: "int \<Rightarrow> int \<Rightarrow> KeyState list \<Rightarrow> KeyState list option" where
  "bindDown i keyIndex ks =
     (if 0 \<le> i
      then (case bind_default ks i keyIndex of
              None \<Rightarrow> None
            | Some ks' \<Rightarrow> bindDown (i - 1) (keyIndex - 1) ks')
      else Some ks)"
  by pat_completeness auto
termination
  by (relation "measure (\<lambda>(i, keyIndex, ks). nat (i + 1))") auto

text \<open>\<open>for (i = ..., keyIndex = 5; i < columnCount; i++, keyIndex++)\<close>\<close>

function bindUp :: "int \<Rightarrow> int \<Rightarrow> int \<Rightarrow> KeyState list \<Rightarrow> KeyState list option" where
  "bindUp columnCount i keyIndex ks =
     (if i < columnCount
      then (case bind_default ks i keyIndex of
              None \<Rightarrow> None
            | Some ks' \<Rightarrow> bindUp columnCount (i + 1) (keyIndex + 1) ks')
      else Some ks)"
  by pat_completeness auto
termination
  by (relation "measure (\<lambda>(columnCount, i, keyIndex, ks). nat (columnCount - i))") auto

text \<open>\<open>for (i = 0; i < columnCount; i++) keyStates[i].key = customKeys[i]\<close>\<close>

function bindCustom :: "WORD list \<Rightarrow> int \<Rightarrow> int \<Rightarrow> KeyState list \<Rightarrow> KeyState list option" where
  "bindCustom customKeys columnCount i ks =
     (if i < columnCount
      then (case array_at customKeys i of
              None \<Rightarrow> None
            | Some k \<Rightarrow>
                (case store_key ks i k of
                   None \<Rightarrow> None
                 | Some ks' \<Rightarrow> bindCustom customKeys columnCount (i + 1) ks'))
      else Some ks)"
  by pat_completeness auto
termination
  by (relation "measure (\<lambda>(customKeys, columnCount, i, ks). nat (columnCount - i))") auto

declare bindDown.simps [simp del] bindUp.simps [simp del] bindCustom.simps [simp del]

text \<open>
  \<open>setupKeyBindings\<close>. The lane count is never negative where the function is called,
  so that \<open>columnCount / 2\<close> and \<open>columnCount % 2\<close> are \<open>div\<close> and \<open>mod\<close>; a
  null \<open>customKeys\<close> is \<open>None\<close>. The parameter \<open>columns\<close> is not read.
\<close>

definition setupKeyBindings ::
  "int32 list \<Rightarrow> nat \<Rightarrow> WORD list option \<Rightarrow> KeyState list \<Rightarrow> KeyState list option" where
  "setupKeyBindings columns columnCount customKeys ks =
     (let middleIndex = int columnCount div 2 in
      case customKeys of
        Some tbl \<Rightarrow> bindCustom tbl (int columnCount) 0 ks
      | None \<Rightarrow>
          if columnCount mod 2 = 1
          then (case store_key ks middleIndex (scast VK_SPACE) of
                  None \<Rightarrow> None
                | Some ks1 \<Rightarrow>
                    (case bindDown (middleIndex - 1) 3 ks1 of
                       None \<Rightarrow> None
                     | Some ks2 \<Rightarrow> bindUp (int columnCount) (middleIndex + 1) 5 ks2))
          else (case bindDown (middleIndex - 1) 3 ks of
                  None \<Rightarrow> None
                | Some ks2 \<Rightarrow> bindUp (int columnCount) middleIndex 5 ks2))"

subsection \<open>The column partitioner\<close>

definition compare_ints :: "int32 \<Rightarrow> int32 \<Rightarrow> int32" where
  "compare_ints a b = a - b"

text \<open>
  \<open>qsort\<close> is the C library's and its algorithm is not fixed by the standard. It is
  modelled as an insertion sort that asks the comparator, as the library does, and puts
  \<open>a\<close> in front of \<open>b\<close> when the comparator's result is not positive.
\<close>

fun qsort_insert :: "('a \<Rightarrow> 'a \<Rightarrow> int32) \<Rightarrow> 'a \<Rightarrow> 'a list \<Rightarrow> 'a list" where
  "qsort_insert cmp a [] = [a]"
| "qsort_insert cmp a (b # bs) =
     (if sint (cmp a b) \<le> 0 then a # b # bs else b # qsort_insert cmp a bs)"

definition qsort :: "('a \<Rightarrow> 'a \<Rightarrow> int32) \<Rightarrow> 'a list \<Rightarrow> 'a list" where
  "qsort cmp xs = foldr (qsort_insert cmp) xs []"

text \<open>
  The explicit lane centres \<open>(int)((i + 0.5) * (512.0 / L))\<close>. The source computes them
  in double precision; for the lane counts 1 to 9 that reach this line the truncated double
  is the integer quotient below.
\<close>

definition laneCenter :: "nat \<Rightarrow> nat \<Rightarrow> int32" where
  "laneCenter L i = word_of_int (((2 * int i + 1) * 256) div int L)"

text \<open>The inner search loop of the auto detection: \<open>found\<close>.\<close>

fun column_found :: "int32 list \<Rightarrow> int32 \<Rightarrow> bool" where
  "column_found [] v = False"
| "column_found (c # cs) v = (if c = v then True else column_found cs v)"

definition detect_step :: "int32 list \<Rightarrow> HitObject \<Rightarrow> int32 list" where
  "detect_step columns h =
     (if \<not> column_found columns (obj_x h) \<and> length columns < MAX_KEYS
      then columns @ [obj_x h] else columns)"

text \<open>
  The first branch of \<open>clickHitObjects\<close>: the array \<open>columns\<close>, as the list of its
  first \<open>columnCount\<close> entries. The list \<open>hitObjects\<close> stands for the array and its
  length for \<open>count\<close>.
\<close>

definition detectColumns :: "HitObject list \<Rightarrow> int32 \<Rightarrow> int32 list" where
  "detectColumns hitObjects expectedColumnCount =
     (if 0 < sint expectedColumnCount \<and> sint expectedColumnCount \<le> int MAX_KEYS
      then map (laneCenter (nat (sint expectedColumnCount))) [0..<nat (sint expectedColumnCount)]
      else fold (\<lambda>h columns. detect_step columns h) hitObjects [])"

fun getKeyIndex_from :: "int \<Rightarrow> int32 \<Rightarrow> int32 list \<Rightarrow> int" where
  "getKeyIndex_from i v [] = - 1"
| "getKeyIndex_from i v (c # cs) = (if v = c then i else getKeyIndex_from (i + 1) v cs)"

definition getKeyIndex :: "int32 \<Rightarrow> int32 list \<Rightarrow> int" where
  "getKeyIndex v columns = getKeyIndex_from 0 v columns"

text \<open>
  The bucketing loop. \<open>columnObjects\<close> holds the filled part of each row, so that
  \<open>columnCounts[k]\<close> is the length of row \<open>k\<close>.
\<close>

definition bucket_step :: "int32 list \<Rightarrow> HitObject list list \<Rightarrow> HitObject \<Rightarrow> HitObject list list" where
  "bucket_step columns columnObjects h =
     (let columnIndex = getKeyIndex (obj_x h) columns in
      if columnIndex \<noteq> - 1 \<and> length (columnObjects ! nat columnIndex) < MAX_OBJECTS_PER_COLUMN
      then columnObjects[nat columnIndex := columnObjects ! nat columnIndex @ [h]]
      else columnObjects)"

definition bucketObjects :: "int32 list \<Rightarrow> HitObject list \<Rightarrow> HitObject list list" where
  "bucketObjects columns hitObjects =
     fold (\<lambda>h columnObjects. bucket_step columns columnObjects h) hitObjects (replicate MAX_KEYS [])"

text \<open>\<open>struct ThreadData\<close>, its fields prefixed with \<open>td_\<close>.\<close>

record ThreadData =
  td_objects :: "HitObject list"
  td_count :: nat
  td_columnIndex :: nat
  td_startTimeAdjustment :: int32
  td_enableClicking :: bool
  td_offset :: int32

text \<open>
  \<open>clickHitObjects\<close> up to the point where the lane threads are started: the world with
  the key bindings written, and the \<open>ThreadData\<close> of every thread it starts, in
  starting order. The parameter \<open>offset\<close> of the source is \<open>offsetArg\<close> here. \<open>None\<close>
  is an array access out of bounds in \<open>setupKeyBindings\<close>.
\<close>

definition clickHitObjects ::
  "HitObject list \<Rightarrow> int32 \<Rightarrow> int32 \<Rightarrow> int32 \<Rightarrow> bool \<Rightarrow> int32 \<Rightarrow> int32 \<Rightarrow> WORD list option
     \<Rightarrow> World \<Rightarrow> (World \<times> ThreadData list) option" where
  "clickHitObjects hitObjects unused1 unused2 startTimeAdjustment enableClicking offsetArg
       expectedColumnCount customKeys w =
     (let columns = qsort compare_ints (detectColumns hitObjects expectedColumnCount);
          columnCount = length columns
      in case setupKeyBindings columns columnCount customKeys (keyStates w) of
           None \<Rightarrow> None
         | Some ks \<Rightarrow>
             (let columnObjects = bucketObjects columns hitObjects
              in Some (w\<lparr>keyStates := ks\<rparr>,
                   map (\<lambda>i. \<lparr>td_objects = columnObjects ! i,
                             td_count = length (columnObjects ! i),
                             td_columnIndex = i,
                             td_startTimeAdjustment = startTimeAdjustment,
                             td_enableClicking = enableClicking,
                             td_offset = offsetArg\<rparr>) [0..<columnCount])))"

text \<open>
  Positions far enough from the ends of \<open>int\<close> for the difference of any two of them
  to be representable.
\<close>

definition position_in_range :: "int32 \<Rightarrow> bool" where
  "position_in_range v \<longleftrightarrow> - 1073741824 \<le> sint v \<and> sint v < 1073741824"

text \<open>Non-decreasing timestamps, compared as the signed integers they are.\<close>

definition in_timestamp_order :: "HitObject list \<Rightarrow> bool" where
  "in_timestamp_order hs = sorted_wrt (\<lambda>a b. sint (timestamp a) \<le> sint (timestamp b)) hs"

subsection \<open>Jitter and the computed press and release times\<close>

text \<open>
  The random source is the stream of the values that the calls of \<open>rand\<close> return, each
  between 0 and \<open>RAND_MAX\<close> (32767 in the C runtime of Windows).
\<close>

type_synonym rand_source = "nat stream"

definition RAND_MAX :: nat where
  "RAND_MAX = 32767"

definition rand :: "rand_source \<Rightarrow> nat \<times> rand_source" where
  "rand s = (shd s, stl s)"

text \<open>
  What the model cannot continue from. \<open>LogOfZero\<close>: \<open>log\<close> was applied to 0; its
  result is minus infinity, \<open>z\<close> is infinite, \<open>z * maxOffset / 3.0\<close> is infinite or not a
  number, and the conversion of such a value to \<open>int\<close> is undefined. \<open>IntOutOfRange\<close>: a
  finite double outside the range of \<open>int\<close> was converted.
\<close>

datatype fault = LogOfZero | IntOutOfRange

text \<open>The cast \<open>(int)\<close> of a double: truncation towards zero.\<close>

definition double_to_int :: "real \<Rightarrow> fault + int32" where
  "double_to_int d =
     (let t = (if 0 \<le> d then \<lfloor>d\<rfloor> else \<lceil>d\<rceil>)
      in if - 2147483648 \<le> t \<and> t \<le> 2147483647 then Inr (word_of_int t) else Inl IntOutOfRange)"

text \<open>
  \<open>generateBellCurveOffset\<close>, with the doubles of the source read as real numbers. It
  returns the offset and the random source after its two draws.
\<close>

definition generateBellCurveOffset :: "int32 \<Rightarrow> rand_source \<Rightarrow> (fault + int32) \<times> rand_source" where
  "generateBellCurveOffset maxOffset s =
     (let (r1, s1) = rand s;
          u1 = real r1 / real RAND_MAX;
          (r2, s2) = rand s1;
          u2 = real r2 / real RAND_MAX
      in if u1 = 0 then (Inl LogOfZero, s2)
         else (double_to_int (sqrt (- 2 * ln u1) * cos (2 * pi * u2) * real_of_int (sint maxOffset) / 3), s2))"

text \<open>Line 121 of \<open>columnPlayer\<close>.\<close>

definition pressTimeOf :: "HitObject \<Rightarrow> int32 \<Rightarrow> int32 \<Rightarrow> int32 \<Rightarrow> int32" where
  "pressTimeOf obj startTimeAdjustment pressOffset tshift =
     timestamp obj - startTimeAdjustment + pressOffset + tshift"

text \<open>Lines 122 to 126 of \<open>columnPlayer\<close>; \<open>nextObj\<close> is \<open>None\<close> for the null pointer.\<close>

definition releaseTimeOf ::
  "HitObject \<Rightarrow> HitObject option \<Rightarrow> int32 \<Rightarrow> int32 \<Rightarrow> int32 \<Rightarrow> int32 \<Rightarrow> int32" where
  "releaseTimeOf obj nextObj startTimeAdjustment pressTime releaseOffset tshift =
     (let releaseTime =
            (if object_type obj = 128
             then end_time obj - startTimeAdjustment + releaseOffset + tshift
             else pressTime + 50 + releaseOffset)
      in case nextObj of
           None \<Rightarrow> releaseTime
         | Some n \<Rightarrow>
             if sint (timestamp n - startTimeAdjustment - 5) < sint releaseTime
             then timestamp n - startTimeAdjustment - 5
             else releaseTime)"

text \<open>
  Lines 118 to 126 for one object: two jitter draws with the amplitude \<open>amp\<close> read from
  the variable \<open>offset\<close>, then the press time and the release time.
\<close>

definition noteTimes ::
  "int32 \<Rightarrow> int32 \<Rightarrow> int32 \<Rightarrow> HitObject \<Rightarrow> HitObject option \<Rightarrow> rand_source
     \<Rightarrow> (fault + int32 \<times> int32) \<times> rand_source" where
  "noteTimes amp tshift startTimeAdjustment obj nextObj s =
     (case generateBellCurveOffset amp s of
        (Inl f, s1) \<Rightarrow> (Inl f, s1)
      | (Inr pressOffset, s1) \<Rightarrow>
          (case generateBellCurveOffset amp s1 of
             (Inl f, s2) \<Rightarrow> (Inl f, s2)
           | (Inr releaseOffset, s2) \<Rightarrow>
               (let pressTime = pressTimeOf obj startTimeAdjustment pressOffset tshift;
                    releaseTime = releaseTimeOf obj nextObj startTimeAdjustment pressTime releaseOffset tshift
                in (Inr (pressTime, releaseTime), s2))))"

text \<open>
  \<open>nextObj\<close> of the loop body: the object at \<open>i + 1\<close> when \<open>i < count - 1\<close>, else the
  null pointer.
\<close>

definition nextObjOf :: "ThreadData \<Rightarrow> nat \<Rightarrow> HitObject option" where
  "nextObjOf data i = (if Suc i < td_count data then Some (td_objects data ! Suc i) else None)"

subsection \<open>The lane player, one step at a time\<close>

text \<open>
  \<open>columnPlayer\<close> runs in a thread of its own, beside the other lanes and beside the
  host's calls of \<open>setStopClicking\<close>, \<open>setTimingShift\<close> and \<open>setOffset\<close>. Its body is
  cut into steps; a step reads or writes the shared variables at one point of the source:
  \<^item> \<open>Start\<close>: lines 103 to 107, the start time is taken;
  \<^item> \<open>LoopHead\<close>: lines 109 and 110, the loop test and the check of \<open>stopClicking\<close>;
  \<^item> \<open>Prologue\<close>: lines 112 to 126, the clock is read, the jitter drawn and the two
    times computed, from one reading of \<open>offset\<close> and \<open>timingShift\<close>;
  \<^item> \<open>WaitPress\<close>: one test of the loop at line 128 and, inside it, lines 129 to 131;
  \<^item> \<open>DoPress\<close>: lines 134 and 135; \<open>MarkPressed\<close>: line 136;
  \<^item> \<open>WaitRelease\<close>: one test of the loop at line 139 and, inside it, lines 140 to 142;
  \<^item> \<open>DoRelease\<close>: lines 145 and 146; \<open>MarkReleased\<close>: line 147 and \<open>i++\<close>;
  \<^item> \<open>Returned\<close>: the thread function has returned; \<open>Faulted\<close>: see \<open>fault\<close>.
  The field \<open>count\<close> is the number of entries of \<open>objects\<close>, as \<open>clickHitObjects\<close>
  fills them, and \<open>columnIndex\<close> is below \<open>MAX_KEYS\<close>.
\<close>

datatype pc = Start | LoopHead | Prologue | WaitPress | DoPress | MarkPressed
  | WaitRelease | DoRelease | MarkReleased | Returned | Faulted fault

record Lane =
  lane_data :: ThreadData
  lane_pc :: pc
  lane_i :: nat
  lane_startTime :: real
  lane_elapsedTime :: real
  lane_pressTime :: int32
  lane_releaseTime :: int32

definition set_pressed :: "nat \<Rightarrow> bool \<Rightarrow> World \<Rightarrow> World" where
  "set_pressed k b w = w\<lparr>keyStates := (keyStates w)[k := (keyStates w ! k)\<lparr>is_pressed := b\<rparr>]\<rparr>"

text \<open>
  One step of \<open>columnPlayer\<close> at the clock reading \<open>now\<close> (milliseconds, as the source scales the
  performance counter): the lane, the shared world and the random source after it.
\<close>

definition columnPlayer_step :: "real \<Rightarrow> Lane \<Rightarrow> World \<Rightarrow> rand_source \<Rightarrow> Lane \<times> World \<times> rand_source" where
  "columnPlayer_step now l w s =
     (let data = lane_data l; k = td_columnIndex data
      in case lane_pc l of
           Start \<Rightarrow> (l\<lparr>lane_startTime := now, lane_i := 0, lane_pc := LoopHead\<rparr>, w, s)
         | LoopHead \<Rightarrow>
             if lane_i l < td_count data
             then (if stopClicking w then (l\<lparr>lane_pc := Returned\<rparr>, w, s)
                   else (l\<lparr>lane_pc := Prologue\<rparr>, w, s))
             else (l\<lparr>lane_pc := Returned\<rparr>, w, s)
         | Prologue \<Rightarrow>
             (case noteTimes (offset w) (timingShift w) (td_startTimeAdjustment data)
                     (td_objects data ! lane_i l) (nextObjOf data (lane_i l)) s of
                (Inl f, s') \<Rightarrow> (l\<lparr>lane_pc := Faulted f\<rparr>, w, s')
              | (Inr (p, r), s') \<Rightarrow>
                  (l\<lparr>lane_elapsedTime := now - lane_startTime l, lane_pressTime := p,
                     lane_releaseTime := r, lane_pc := WaitPress\<rparr>, w, s'))
         | WaitPress \<Rightarrow>
             if lane_elapsedTime l < real_of_int (sint (lane_pressTime l))
             then (if stopClicking w then (l\<lparr>lane_pc := Returned\<rparr>, w, s)
                   else (l\<lparr>lane_elapsedTime := now - lane_startTime l\<rparr>, w, s))
             else (l\<lparr>lane_pc := DoPress\<rparr>, w, s)
         | DoPress \<Rightarrow>
             if td_enableClicking data
             then (l\<lparr>lane_pc := MarkPressed\<rparr>, pressKey (key (keyStates w ! k)) w, s)
             else (l\<lparr>lane_pc := WaitRelease\<rparr>, w, s)
         | MarkPressed \<Rightarrow> (l\<lparr>lane_pc := WaitRelease\<rparr>, set_pressed k True w, s)
         | WaitRelease \<Rightarrow>
             if lane_elapsedTime l < real_of_int (sint (lane_releaseTime l))
             then (if stopClicking w then (l\<lparr>lane_pc := Returned\<rparr>, w, s)
                   else (l\<lparr>lane_elapsedTime := now - lane_startTime l\<rparr>, w, s))
             else (l\<lparr>lane_pc := DoRelease\<rparr>, w, s)
         | DoRelease \<Rightarrow>
             if td_enableClicking data
             then (l\<lparr>lane_pc := MarkReleased\<rparr>, releaseKey (key (keyStates w ! k)) w, s)
             else (l\<lparr>lane_i := Suc (lane_i l), lane_pc := LoopHead\<rparr>, w, s)
         | MarkReleased \<Rightarrow>
             (l\<lparr>lane_i := Suc (lane_i l), lane_pc := LoopHead\<rparr>, set_pressed k False w, s)
         | Returned \<Rightarrow> (l, w, s)
         | Faulted f \<Rightarrow> (l, w, s))"

text \<open>
  The running process: the shared world, the lane threads, the clock and the random
  source. An action is one step of one lane, time passing, or a call of the host.
\<close>

record System =
  sys_world :: World
  sys_lanes :: "Lane list"
  sys_now :: real
  sys_rand :: rand_source

datatype action = Run nat | Advance real
  | CallSetStopClicking bool | CallSetTimingShift int32 | CallSetOffset int32

definition run_lane :: "nat \<Rightarrow> System \<Rightarrow> System" where
  "run_lane k sys =
     (if k < length (sys_lanes sys)
      then (case columnPlayer_step (sys_now sys) (sys_lanes sys ! k) (sys_world sys) (sys_rand sys) of
              (l, w, s) \<Rightarrow> sys\<lparr>sys_world := w, sys_lanes := (sys_lanes sys)[k := l], sys_rand := s\<rparr>)
      else sys)"

fun step :: "action \<Rightarrow> System \<Rightarrow> System" where
  "step (Run k) sys = run_lane k sys"
| "step (Advance d) sys = sys\<lparr>sys_now := sys_now sys + d\<rparr>"
| "step (CallSetStopClicking v) sys = sys\<lparr>sys_world := setStopClicking v (sys_world sys)\<rparr>"
| "step (CallSetTimingShift v) sys = sys\<lparr>sys_world := setTimingShift v (sys_world sys)\<rparr>"
| "step (CallSetOffset v) sys = sys\<lparr>sys_world := setOffset v (sys_world sys)\<rparr>"

definition exec :: "action list \<Rightarrow> System \<Rightarrow> System" where
  "exec acts sys = fold step acts sys"

text \<open>The events that lane \<open>k\<close> hands to \<open>SendInput\<close> during a run.\<close>

fun emitted_by :: "nat \<Rightarrow> action list \<Rightarrow> System \<Rightarrow> event list" where
  "emitted_by k [] sys = []"
| "emitted_by k (a # acts) sys =
     (if a = Run k then drop (length (sent (sys_world sys))) (sent (sys_world (step a sys))) else [])
       @ emitted_by k acts (step a sys)"

text \<open>\<open>_beginthreadex\<close> for every lane, at the end of \<open>clickHitObjects\<close>.\<close>

definition spawn :: "ThreadData \<Rightarrow> Lane" where
  "spawn data =
     \<lparr>lane_data = data, lane_pc = Start, lane_i = 0, lane_startTime = 0, lane_elapsedTime = 0,
      lane_pressTime = 0, lane_releaseTime = 0\<rparr>"

definition startSession :: "World \<Rightarrow> ThreadData list \<Rightarrow> real \<Rightarrow> rand_source \<Rightarrow> System" where
  "startSession w datas now s =
     \<lparr>sys_world = w, sys_lanes = map spawn datas, sys_now = now, sys_rand = s\<rparr>"

text \<open>The places where a lane reads \<open>stopClicking\<close>.\<close>

definition at_stop_check :: "Lane \<Rightarrow> bool" where
  "at_stop_check l \<longleftrightarrow>
     lane_pc l = LoopHead \<and> lane_i l < td_count (lane_data l)
     \<or> lane_pc l = WaitPress \<and> lane_elapsedTime l < real_of_int (sint (lane_pressTime l))
     \<or> lane_pc l = WaitRelease \<and> lane_elapsedTime l < real_of_int (sint (lane_releaseTime l))"

text \<open>A lane, and a process, with the field \<open>offset\<close> of every \<open>ThreadData\<close> blanked.\<close>

definition forget_offset :: "ThreadData \<Rightarrow> ThreadData" where
  "forget_offset data = data\<lparr>td_offset := 0\<rparr>"

definition forget_lane :: "Lane \<Rightarrow> Lane" where
  "forget_lane l = l\<lparr>lane_data := forget_offset (lane_data l)\<rparr>"

definition forget_sys :: "System \<Rightarrow> System" where
  "forget_sys sys = sys\<lparr>sys_lanes := map forget_lane (sys_lanes sys)\<rparr>"

subsection \<open>A cancellation scenario\<close>

text \<open>
  One lane with one tap at 1000, jitter amplitude 0. The lane leaves its first wait loop
  at the clock reading 1020; the host then calls \<open>setStopClicking(TRUE)\<close>, which runs to
  its end; the lane goes on from line 134.
\<close>

definition stuck_world :: World where
  "stuck_world = (setOffset 0 initial_World)\<lparr>keyStates := (keyStates initial_World)[0 :=
       \<lparr>key = 0x20, press_time = 0, release_time = 0, is_pressed = False\<rparr>]\<rparr>"

definition stuck_data :: ThreadData where
  "stuck_data =
     \<lparr>td_objects = [\<lparr>obj_x = 64, obj_y = 0, timestamp = 1000, object_type = 1, end_time = 1000\<rparr>],
      td_count = 1, td_columnIndex = 0, td_startTimeAdjustment = 0, td_enableClicking = True,
      td_offset = 30\<rparr>"

definition stuck_schedule :: "action list" where
  "stuck_schedule =
     [Run 0, Run 0, Run 0, Advance 1020, Run 0, Run 0, CallSetStopClicking True, Run 0, Run 0, Run 0]"

section \<open>The stop operation releases what is held\<close>

lemma releaseAt_unfold:
  assumes "i < length (keyStates w)"
  shows "releaseAt i w =
     w\<lparr>keyStates := (keyStates w)[i := unpress (keyStates w ! i)],
       sent := sent w @ (if is_pressed (keyStates w ! i) then [KeyUp (key (keyStates w ! i))] else [])\<rparr>"
proof (cases "is_pressed (keyStates w ! i)")
  case True
  then show ?thesis
    by (simp add: releaseAt_def releaseKey_def unpress_def Let_def)
next
  case False
  then have "unpress (keyStates w ! i) = keyStates w ! i"
    by (simp add: unpress_def)
  with False show ?thesis
    by (simp add: releaseAt_def)
qed

lemma fold_releaseAt:
  assumes "n \<le> length (keyStates w)"
  shows "fold releaseAt [0..<n] w =
     w\<lparr>keyStates := map unpress (take n (keyStates w)) @ drop n (keyStates w),
       sent := sent w @ map (\<lambda>k. KeyUp (key k)) (filter is_pressed (take n (keyStates w)))\<rparr>"
  using assms
proof (induction n)
  case 0
  then show ?case by simp
next
  case (Suc n)
  let ?ks = "keyStates w"
  let ?mid = "w\<lparr>keyStates := map unpress (take n ?ks) @ drop n ?ks,
       sent := sent w @ map (\<lambda>k. KeyUp (key k)) (filter is_pressed (take n ?ks))\<rparr>"
  from Suc.prems have n: "n < length ?ks" by simp
  have at: "(map unpress (take n ?ks) @ drop n ?ks) ! n = ?ks ! n"
    using n by (simp add: nth_append)
  have upd: "(map unpress (take n ?ks) @ drop n ?ks)[n := unpress (?ks ! n)]
      = map unpress (take (Suc n) ?ks) @ drop (Suc n) ?ks"
    using n by (simp add: list_update_append take_Suc_conv_app_nth upd_conv_take_nth_drop)
  have "fold releaseAt [0..<Suc n] w = releaseAt n ?mid"
    using Suc.IH n by simp
  also have "\<dots> = ?mid\<lparr>keyStates := (keyStates ?mid)[n := unpress (keyStates ?mid ! n)],
       sent := sent ?mid @ (if is_pressed (keyStates ?mid ! n) then [KeyUp (key (keyStates ?mid ! n))] else [])\<rparr>"
    using n by (intro releaseAt_unfold) simp
  also have "\<dots> = w\<lparr>keyStates := map unpress (take (Suc n) ?ks) @ drop (Suc n) ?ks,
       sent := sent w @ map (\<lambda>k. KeyUp (key k)) (filter is_pressed (take (Suc n) ?ks))\<rparr>"
    using n upd by (simp add: at take_Suc_conv_app_nth)
  finally show ?case .
qed

lemma releaseAllKeys_eq:
  assumes "length (keyStates w) = MAX_KEYS"
  shows "releaseAllKeys w =
     w\<lparr>keyStates := map unpress (keyStates w),
       sent := sent w @ map (\<lambda>k. KeyUp (key k)) (filter is_pressed (keyStates w))\<rparr>"
  using fold_releaseAt [of MAX_KEYS w] assms by (simp add: releaseAllKeys_def)

text \<open>
  C10. For every boolean \<open>v\<close>, \<open>setStopClicking v\<close> stores \<open>v\<close> in the stop flag (also
  when \<open>v\<close> is \<open>False\<close>), sends one key-up for every entry of \<open>keyStates\<close> whose
  \<open>is_pressed\<close> flag is set, in index order and nothing else, clears every \<open>is_pressed\<close>
  flag and leaves the bound keys alone; a second call, with any value, sends nothing more.
\<close>

theorem setStopClicking_releases_pressed:
  assumes "length (keyStates w) = MAX_KEYS"
  shows "stopClicking (setStopClicking v w) = v
    \<and> sent (setStopClicking v w) = sent w @ map (\<lambda>k. KeyUp (key k)) (filter is_pressed (keyStates w))
    \<and> keyStates (setStopClicking v w) = map unpress (keyStates w)
    \<and> filter is_pressed (keyStates (setStopClicking v w)) = []
    \<and> sent (setStopClicking v' (setStopClicking v w)) = sent (setStopClicking v w)"
proof -
  have len: "length (keyStates (w\<lparr>stopClicking := v\<rparr>)) = MAX_KEYS"
    using assms by simp
  have first: "setStopClicking v w =
     w\<lparr>stopClicking := v, keyStates := map unpress (keyStates w),
       sent := sent w @ map (\<lambda>k. KeyUp (key k)) (filter is_pressed (keyStates w))\<rparr>"
    using releaseAllKeys_eq [OF len] by (simp add: setStopClicking_def)
  have none: "filter is_pressed (map unpress ks) = []" for ks
    by (induction ks) (simp_all add: unpress_def)
  have len2: "length (keyStates ((setStopClicking v w)\<lparr>stopClicking := v'\<rparr>)) = MAX_KEYS"
    using assms by (simp add: first)
  have second: "sent (setStopClicking v' (setStopClicking v w)) = sent (setStopClicking v w)"
    using releaseAllKeys_eq [OF len2] by (simp add: setStopClicking_def [of v'] first none)
  show ?thesis
    using second by (simp add: first none)
qed

theorem setStopClicking_releases_pressed_witness:
  "length (keyStates (initial_World\<lparr>keyStates := (keyStates initial_World)[2 := \<lparr>key = 0x44, press_time = 0, release_time = 0, is_pressed = True\<rparr>]\<rparr>)) = MAX_KEYS
   \<and> sent (setStopClicking False (initial_World\<lparr>keyStates := (keyStates initial_World)[2 := \<lparr>key = 0x44, press_time = 0, release_time = 0, is_pressed = True\<rparr>]\<rparr>)) = [KeyUp 0x44]
   \<and> stopClicking (setStopClicking False (initial_World\<lparr>keyStates := (keyStates initial_World)[2 := \<lparr>key = 0x44, press_time = 0, release_time = 0, is_pressed = True\<rparr>]\<rparr>)) = False"
proof -
  let ?w = "initial_World\<lparr>keyStates := (keyStates initial_World)[2 := \<lparr>key = 0x44, press_time = 0, release_time = 0, is_pressed = True\<rparr>]\<rparr>"
  have len: "length (keyStates ?w) = MAX_KEYS"
    by (simp add: initial_World_def)
  have held: "filter is_pressed (keyStates ?w) = [\<lparr>key = 0x44, press_time = 0, release_time = 0, is_pressed = True\<rparr>]"
    by (simp add: initial_World_def MAX_KEYS_def numeral_eq_Suc)
  have start: "sent ?w = []"
    by (simp add: initial_World_def)
  show ?thesis
    using setStopClicking_releases_pressed [OF len, of False False] len held start by simp
qed

section \<open>The default key layout\<close>

lemma nine_cells:
  assumes "length ks = MAX_KEYS"
  shows "\<exists>a b c d e f g h i. ks = [a, b, c, d, e, f, g, h, i]"
  using assms by (auto simp: MAX_KEYS_def length_Suc_conv numeral_eq_Suc)

lemmas binding_eval =
  setupKeyBindings_def bindDown.simps bindUp.simps bind_default_def store_key_def
  array_at_def keys_def VK_SPACE_def VK_OEM_1_def

lemma setupKeyBindings_cases:
  assumes "L \<le> 9" and "length ks = MAX_KEYS"
  shows "\<exists>ks'. setupKeyBindings cols L None ks = Some ks' \<and> length ks' = MAX_KEYS
      \<and> distinct (map key (take L ks')) \<and> drop L ks' = drop L ks
      \<and> (odd L \<longrightarrow> key (ks' ! (L div 2)) = scast VK_SPACE)"
proof -
  obtain a b c d e f g h i where ks: "ks = [a, b, c, d, e, f, g, h, i]"
    using nine_cells [OF assms(2)] by blast
  from assms(1) consider "L = 0" | "L = 1" | "L = 2" | "L = 3" | "L = 4" | "L = 5" | "L = 6"
    | "L = 7" | "L = 8" | "L = 9"
    by (auto simp: le_Suc_eq numeral_eq_Suc)
  then show ?thesis
    by cases (simp_all add: ks binding_eval MAX_KEYS_def)
qed

text \<open>
  C6. For every lane count \<open>L\<close> from 1 to 9 and no custom key table,
  \<open>setupKeyBindings\<close> returns normally, the keys it binds to the lanes \<open>0..L-1\<close> are
  pairwise distinct, the entries from \<open>L\<close> on are left as they were, and for an odd \<open>L\<close>
  the middle lane \<open>L div 2\<close> is bound to the space key.
\<close>

theorem setupKeyBindings_default_layout:
  assumes "1 \<le> L" and "L \<le> 9" and "length ks = MAX_KEYS"
  shows "\<exists>ks'. setupKeyBindings cols L None ks = Some ks' \<and> length ks' = MAX_KEYS
      \<and> distinct (map key (take L ks')) \<and> drop L ks' = drop L ks
      \<and> (odd L \<longrightarrow> key (ks' ! (L div 2)) = scast VK_SPACE)"
  using assms(2,3) by (rule setupKeyBindings_cases)

theorem setupKeyBindings_default_layout_witness:
  "(1::nat) \<le> 7 \<and> (7::nat) \<le> 9 \<and> length (keyStates initial_World) = MAX_KEYS
   \<and> (\<exists>ks'. setupKeyBindings [] 7 None (keyStates initial_World) = Some ks'
        \<and> distinct (map key (take 7 ks')) \<and> key (ks' ! 3) = 0x20)"
proof -
  have len: "length (keyStates initial_World) = MAX_KEYS"
    by (simp add: initial_World_def)
  have lo: "(1::nat) \<le> 7" and hi: "(7::nat) \<le> 9"
    by simp_all
  show ?thesis
    using setupKeyBindings_default_layout [OF lo hi len, of "[]"] len
    by (auto simp: VK_SPACE_def)
qed

section \<open>The column partitioner keeps the input order\<close>

lemma length_qsort_insert: "length (qsort_insert cmp a xs) = Suc (length xs)"
  by (induction xs) auto

lemma set_qsort_insert: "set (qsort_insert cmp a xs) = insert a (set xs)"
  by (induction xs) auto

lemma length_qsort: "length (qsort cmp xs) = length xs"
  by (induction xs) (auto simp: qsort_def length_qsort_insert)

lemma set_qsort: "set (qsort cmp xs) = set xs"
  by (induction xs) (auto simp: qsort_def set_qsort_insert)

lemma column_found_iff: "column_found cs v \<longleftrightarrow> v \<in> set cs"
  by (induction cs) auto

lemma length_detect_fold:
  "length cs \<le> MAX_KEYS \<Longrightarrow> length (fold (\<lambda>h columns. detect_step columns h) hs cs) \<le> MAX_KEYS"
  by (induction hs arbitrary: cs) (auto simp: detect_step_def)

lemma length_detectColumns: "length (detectColumns hs e) \<le> MAX_KEYS"
proof (cases "0 < sint e \<and> sint e \<le> int MAX_KEYS")
  case True
  then have "nat (sint e) \<le> MAX_KEYS" by linarith
  with True show ?thesis by (simp add: detectColumns_def)
next
  case False
  have "detectColumns hs e = fold (\<lambda>h columns. detect_step columns h) hs []"
    unfolding detectColumns_def by (rule if_not_P [OF False])
  then show ?thesis
    using length_detect_fold [of "[]" hs] by simp
qed

lemma getKeyIndex_from_range:
  "getKeyIndex_from i v cs = - 1 \<or> (i \<le> getKeyIndex_from i v cs \<and> getKeyIndex_from i v cs < i + int (length cs))"
  by (induction cs arbitrary: i) (auto, force+)

lemma getKeyIndex_range:
  "getKeyIndex v cs = - 1 \<or> (0 \<le> getKeyIndex v cs \<and> getKeyIndex v cs < int (length cs))"
  using getKeyIndex_from_range [of 0 v cs] by (simp add: getKeyIndex_def)

lemma length_bucket_step: "length (bucket_step cols co h) = length co"
  by (simp add: bucket_step_def Let_def)

lemma bucket_step_row:
  assumes "k < length co" and "length (co ! k) \<le> MAX_OBJECTS_PER_COLUMN"
  shows "bucket_step cols co h ! k =
     take MAX_OBJECTS_PER_COLUMN (co ! k @ (if getKeyIndex (obj_x h) cols = int k then [h] else []))"
proof -
  let ?j = "getKeyIndex (obj_x h) cols"
  consider "?j = - 1" | "0 \<le> ?j" "?j = int k" | "0 \<le> ?j" "?j \<noteq> int k"
    using getKeyIndex_range [of "obj_x h" cols] by fastforce
  then show ?thesis
  proof cases
    case 1
    with assms show ?thesis by (simp add: bucket_step_def)
  next
    case 2
    with assms show ?thesis
      by (cases "length (co ! k) < MAX_OBJECTS_PER_COLUMN") (simp_all add: bucket_step_def Let_def)
  next
    case 3
    then have "nat ?j \<noteq> k" by linarith
    with 3 assms show ?thesis by (simp add: bucket_step_def Let_def)
  qed
qed

lemma take_take_append: "take n (take n xs @ ys) = take n (xs @ ys)"
  by (cases "length xs \<le> n") simp_all

lemma bucket_fold_row:
  assumes "k < length co" and "length (co ! k) \<le> MAX_OBJECTS_PER_COLUMN"
  shows "fold (\<lambda>h columnObjects. bucket_step cols columnObjects h) hs co ! k =
     take MAX_OBJECTS_PER_COLUMN (co ! k @ filter (\<lambda>h. getKeyIndex (obj_x h) cols = int k) hs)"
  using assms
proof (induction hs arbitrary: co)
  case Nil
  then show ?case by simp
next
  case (Cons h hs)
  let ?co = "bucket_step cols co h"
  have row: "?co ! k = take MAX_OBJECTS_PER_COLUMN (co ! k @ (if getKeyIndex (obj_x h) cols = int k then [h] else []))"
    using Cons.prems by (rule bucket_step_row)
  have "fold (\<lambda>h columnObjects. bucket_step cols columnObjects h) hs ?co ! k =
     take MAX_OBJECTS_PER_COLUMN (?co ! k @ filter (\<lambda>h. getKeyIndex (obj_x h) cols = int k) hs)"
    using Cons.prems by (intro Cons.IH) (simp_all add: length_bucket_step row)
  then show ?case
    by (simp add: row take_take_append del: take_append)
qed

lemma bucketObjects_row:
  assumes "k < MAX_KEYS"
  shows "bucketObjects cols hs ! k =
     take MAX_OBJECTS_PER_COLUMN (filter (\<lambda>h. getKeyIndex (obj_x h) cols = int k) hs)"
  using bucket_fold_row [of k "replicate MAX_KEYS []" cols hs] assms
  by (simp add: bucketObjects_def)

lemma in_timestamp_order_row:
  "in_timestamp_order hs \<Longrightarrow> in_timestamp_order (take n (filter P hs))"
  unfolding in_timestamp_order_def by (intro sorted_wrt_take sorted_wrt_filter)

lemma subseq_row: "subseq (take n (filter P hs)) hs"
proof -
  have "subseq (take n (filter P hs)) (filter P hs)"
    by (rule prefix_imp_subseq [OF take_is_prefix])
  then show ?thesis
    by (rule subseq_order.trans) simp
qed

lemma clickHitObjects_lane:
  assumes "clickHitObjects hs u1 u2 adj en off e ck w = Some (w', tds)" and "td \<in> set tds"
  shows "td_objects td = take MAX_OBJECTS_PER_COLUMN
     (filter (\<lambda>h. getKeyIndex (obj_x h) (qsort compare_ints (detectColumns hs e)) = int (td_columnIndex td)) hs)"
proof -
  let ?cols = "qsort compare_ints (detectColumns hs e)"
  from assms(1) have tds: "tds = map (\<lambda>i. \<lparr>td_objects = bucketObjects ?cols hs ! i,
       td_count = length (bucketObjects ?cols hs ! i), td_columnIndex = i,
       td_startTimeAdjustment = adj, td_enableClicking = en, td_offset = off\<rparr>) [0..<length ?cols]"
    by (auto simp: clickHitObjects_def Let_def split: option.splits)
  with assms(2) obtain i where i: "i < length ?cols" "td_objects td = bucketObjects ?cols hs ! i" "td_columnIndex td = i"
    by auto
  have "length ?cols \<le> MAX_KEYS"
    by (simp add: length_qsort length_detectColumns)
  with i have "i < MAX_KEYS" by simp
  then show ?thesis
    using i by (simp add: bucketObjects_row)
qed

lemma nine_copies: "replicate MAX_KEYS v = [v, v, v, v, v, v, v, v, v]"
  by (simp add: MAX_KEYS_def numeral_eq_Suc)

lemmas click_eval =
  clickHitObjects_def detectColumns_def detect_step_def qsort_def compare_ints_def
  bucketObjects_def bucket_step_def getKeyIndex_def binding_eval initial_World_def
  MAX_KEYS_def MAX_OBJECTS_PER_COLUMN_def laneCenter_def in_timestamp_order_def

text \<open>
  C1, as stated, fails: the partitioner has no sorting step for the buckets. Two notes of
  one lane given in the order 200, 100 reach the lane's player in that order.
\<close>

theorem lane_bucket_unsorted_counterexample:
  "map_option (map td_objects \<circ> snd)
     (clickHitObjects [\<lparr>obj_x = 64, obj_y = 0, timestamp = 200, object_type = 1, end_time = 200\<rparr>, \<lparr>obj_x = 64, obj_y = 0, timestamp = 100, object_type = 1, end_time = 100\<rparr>] 0 0 0 True 30 0 None initial_World) = Some [[\<lparr>obj_x = 64, obj_y = 0, timestamp = 200, object_type = 1, end_time = 200\<rparr>, \<lparr>obj_x = 64, obj_y = 0, timestamp = 100, object_type = 1, end_time = 100\<rparr>]]
   \<and> \<not> in_timestamp_order [\<lparr>obj_x = 64, obj_y = 0, timestamp = 200, object_type = 1, end_time = 200\<rparr>, \<lparr>obj_x = 64, obj_y = 0, timestamp = 100, object_type = 1, end_time = 100\<rparr>]"
  by (simp add: click_eval nine_copies)

text \<open>
  C1, amended. For every input list and every lane the partitioner produces, the sequence
  handed to the lane's player is a subsequence of the input list, in input order; it is in
  non-decreasing timestamp order whenever the input list is.
\<close>

theorem lane_bucket_keeps_input_order:
  assumes "clickHitObjects hs u1 u2 adj en off e ck w = Some (w', tds)" and "td \<in> set tds"
  shows "subseq (td_objects td) hs
    \<and> (in_timestamp_order hs \<longrightarrow> in_timestamp_order (td_objects td))"
  unfolding clickHitObjects_lane [OF assms]
  by (simp add: subseq_row in_timestamp_order_row)

theorem lane_bucket_keeps_input_order_witness:
  "clickHitObjects [\<lparr>obj_x = 64, obj_y = 0, timestamp = 100, object_type = 1, end_time = 100\<rparr>, \<lparr>obj_x = 64, obj_y = 0, timestamp = 200, object_type = 1, end_time = 200\<rparr>] 0 0 0 True 30 0 None initial_World
     = Some (initial_World\<lparr>keyStates := (keyStates initial_World)[0 :=
                \<lparr>key = 0x20, press_time = 0, release_time = 0, is_pressed = False\<rparr>]\<rparr>,
             [\<lparr>td_objects = [\<lparr>obj_x = 64, obj_y = 0, timestamp = 100, object_type = 1, end_time = 100\<rparr>, \<lparr>obj_x = 64, obj_y = 0, timestamp = 200, object_type = 1, end_time = 200\<rparr>], td_count = 2, td_columnIndex = 0,
               td_startTimeAdjustment = 0, td_enableClicking = True, td_offset = 30\<rparr>])
   \<and> in_timestamp_order [\<lparr>obj_x = 64, obj_y = 0, timestamp = 100, object_type = 1, end_time = 100\<rparr>, \<lparr>obj_x = 64, obj_y = 0, timestamp = 200, object_type = 1, end_time = 200\<rparr>]
   \<and> in_timestamp_order (td_objects \<lparr>td_objects = [\<lparr>obj_x = 64, obj_y = 0, timestamp = 100, object_type = 1, end_time = 100\<rparr>, \<lparr>obj_x = 64, obj_y = 0, timestamp = 200, object_type = 1, end_time = 200\<rparr>], td_count = 2, td_columnIndex = 0,
               td_startTimeAdjustment = 0, td_enableClicking = True, td_offset = 30\<rparr>)"
proof -
  let ?td = "\<lparr>td_objects = [\<lparr>obj_x = 64, obj_y = 0, timestamp = 100, object_type = 1, end_time = 100\<rparr>, \<lparr>obj_x = 64, obj_y = 0, timestamp = 200, object_type = 1, end_time = 200\<rparr>], td_count = 2, td_columnIndex = 0,
               td_startTimeAdjustment = 0, td_enableClicking = True, td_offset = 30\<rparr>"
  have run: "clickHitObjects [\<lparr>obj_x = 64, obj_y = 0, timestamp = 100, object_type = 1, end_time = 100\<rparr>, \<lparr>obj_x = 64, obj_y = 0, timestamp = 200, object_type = 1, end_time = 200\<rparr>] 0 0 0 True 30 0 None initial_World
     = Some (initial_World\<lparr>keyStates := (keyStates initial_World)[0 :=
                \<lparr>key = 0x20, press_time = 0, release_time = 0, is_pressed = False\<rparr>]\<rparr>, [?td])"
    by (simp add: click_eval nine_copies)
  have mem: "?td \<in> set [?td]"
    by simp
  have ordered: "in_timestamp_order [\<lparr>obj_x = 64, obj_y = 0, timestamp = 100, object_type = 1, end_time = 100\<rparr>, \<lparr>obj_x = 64, obj_y = 0, timestamp = 200, object_type = 1, end_time = 200\<rparr>]"
    by (simp add: in_timestamp_order_def)
  show ?thesis
    using lane_bucket_keeps_input_order [OF run mem] run ordered by simp
qed

section \<open>Lane counts outside 1..9\<close>

lemma detect_fold_inv:
  assumes "distinct cs" and "length cs \<le> MAX_KEYS"
  shows "distinct (fold (\<lambda>h columns. detect_step columns h) hs cs)
    \<and> length cs \<le> length (fold (\<lambda>h columns. detect_step columns h) hs cs)
    \<and> set (fold (\<lambda>h columns. detect_step columns h) hs cs) \<subseteq> set cs \<union> obj_x ` set hs
    \<and> (length (fold (\<lambda>h columns. detect_step columns h) hs cs) = MAX_KEYS
         \<or> set (fold (\<lambda>h columns. detect_step columns h) hs cs) = set cs \<union> obj_x ` set hs)"
  using assms
proof (induction hs arbitrary: cs)
  case Nil
  then show ?case by simp
next
  case (Cons h hs)
  let ?cs = "detect_step cs h"
  let ?D = "fold (\<lambda>h columns. detect_step columns h) hs ?cs"
  have d: "distinct ?cs" and l: "length ?cs \<le> MAX_KEYS" and m: "length cs \<le> length ?cs"
    using Cons.prems by (auto simp: detect_step_def column_found_iff)
  have s: "set ?cs \<subseteq> insert (obj_x h) (set cs)"
    by (auto simp: detect_step_def)
  have full: "length ?cs = MAX_KEYS \<or> set ?cs = insert (obj_x h) (set cs)"
    using Cons.prems by (auto simp: detect_step_def column_found_iff)
  note IH = Cons.IH [OF d l]
  have 1: "distinct ?D" using IH by simp
  have 2: "length cs \<le> length ?D" using IH m by linarith
  have 3: "set ?D \<subseteq> set cs \<union> obj_x ` set (h # hs)" using IH s by auto
  have bound: "length ?D \<le> MAX_KEYS" using l by (rule length_detect_fold)
  have 4: "length ?D = MAX_KEYS \<or> set ?D = set cs \<union> obj_x ` set (h # hs)"
  proof (cases "length ?cs = MAX_KEYS")
    case True
    with IH bound show ?thesis by linarith
  next
    case False
    with full have "set ?cs = insert (obj_x h) (set cs)" by simp
    with IH show ?thesis by auto
  qed
  from 1 2 3 4 show ?case by simp
qed

lemma length_detect_auto:
  "length (fold (\<lambda>h columns. detect_step columns h) hs []) = min MAX_KEYS (card (obj_x ` set hs))"
proof -
  let ?D = "fold (\<lambda>h columns. detect_step columns h) hs []"
  have inv: "distinct ?D" "set ?D \<subseteq> obj_x ` set hs" "length ?D = MAX_KEYS \<or> set ?D = obj_x ` set hs"
    using detect_fold_inv [of "[]" hs] by simp_all
  have bound: "length ?D \<le> MAX_KEYS"
    by (rule length_detect_fold) simp
  have card: "card (set ?D) = length ?D"
    using inv(1) by (rule distinct_card)
  have "card (set ?D) \<le> card (obj_x ` set hs)"
    using inv(2) by (intro card_mono) simp_all
  with inv(3) bound card show ?thesis
    by (auto simp: min_def)
qed

lemma detectColumns_out_of_range:
  assumes "\<not> (0 < sint e \<and> sint e \<le> 9)"
  shows "detectColumns hs e = fold (\<lambda>h columns. detect_step columns h) hs []"
proof -
  from assms have "\<not> (0 < sint e \<and> sint e \<le> int MAX_KEYS)"
    by (simp add: MAX_KEYS_def)
  then show ?thesis
    unfolding detectColumns_def by (rule if_not_P)
qed

text \<open>
  C3, as stated, fails: with the lane counts 0, 10 and -1 the call does not fail, and a
  chart with one note starts one lane player.
\<close>

theorem lane_count_not_rejected_counterexample:
  "map_option (length \<circ> snd) (clickHitObjects [\<lparr>obj_x = 64, obj_y = 0, timestamp = 100, object_type = 1, end_time = 100\<rparr>] 0 0 0 True 30 0 None initial_World) = Some 1
   \<and> map_option (length \<circ> snd) (clickHitObjects [\<lparr>obj_x = 64, obj_y = 0, timestamp = 100, object_type = 1, end_time = 100\<rparr>] 0 0 0 True 30 10 None initial_World) = Some 1
   \<and> map_option (length \<circ> snd) (clickHitObjects [\<lparr>obj_x = 64, obj_y = 0, timestamp = 100, object_type = 1, end_time = 100\<rparr>] 0 0 0 True 30 (- 1) None initial_World) = Some 1"
  by (simp add: click_eval nine_copies)

text \<open>
  C3, amended. A lane count outside 1..9 is not rejected: every such value selects the
  auto-detection branch, so the call behaves as with the lane count 0, and with no custom
  key table it returns normally and starts one lane player for each distinct horizontal
  position of the input, at most 9.
\<close>

theorem lane_count_out_of_range_autodetects:
  assumes "\<not> (0 < sint e \<and> sint e \<le> 9)" and "length (keyStates w) = MAX_KEYS"
  shows "clickHitObjects hs u1 u2 adj en off e ck w = clickHitObjects hs u1 u2 adj en off 0 ck w
    \<and> (\<exists>w' tds. clickHitObjects hs u1 u2 adj en off e None w = Some (w', tds)
          \<and> length tds = min MAX_KEYS (card (obj_x ` set hs)))"
proof -
  let ?cols = "qsort compare_ints (detectColumns hs e)"
  have auto_branch: "detectColumns hs e = fold (\<lambda>h columns. detect_step columns h) hs []"
    using assms(1) by (rule detectColumns_out_of_range)
  have zero: "detectColumns hs 0 = fold (\<lambda>h columns. detect_step columns h) hs []"
    by (rule detectColumns_out_of_range) simp
  have same: "clickHitObjects hs u1 u2 adj en off e ck w = clickHitObjects hs u1 u2 adj en off 0 ck w"
    by (simp add: clickHitObjects_def auto_branch zero)
  have count: "length ?cols = min MAX_KEYS (card (obj_x ` set hs))"
    by (simp add: length_qsort auto_branch length_detect_auto)
  then have "length ?cols \<le> 9"
    by (simp add: MAX_KEYS_def)
  then obtain ks' where "setupKeyBindings ?cols (length ?cols) None (keyStates w) = Some ks'"
    using setupKeyBindings_cases [OF _ assms(2)] by blast
  then have "\<exists>w' tds. clickHitObjects hs u1 u2 adj en off e None w = Some (w', tds)
          \<and> length tds = min MAX_KEYS (card (obj_x ` set hs))"
    using count by (simp add: clickHitObjects_def Let_def)
  with same show ?thesis by simp
qed

theorem lane_count_out_of_range_autodetects_witness:
  "\<not> (0 < sint (10 :: int32) \<and> sint (10 :: int32) \<le> 9)
   \<and> length (keyStates initial_World) = MAX_KEYS
   \<and> (\<exists>w' tds. clickHitObjects [\<lparr>obj_x = 64, obj_y = 0, timestamp = 100, object_type = 1, end_time = 100\<rparr>, \<lparr>obj_x = 64, obj_y = 0, timestamp = 200, object_type = 1, end_time = 200\<rparr>] 0 0 0 True 30 10 None initial_World = Some (w', tds)
          \<and> length tds = 1)"
proof -
  have range: "\<not> (0 < sint (10 :: int32) \<and> sint (10 :: int32) \<le> 9)"
    by simp
  have len: "length (keyStates initial_World) = MAX_KEYS"
    by (simp add: initial_World_def)
  have one: "min MAX_KEYS (card (obj_x ` set [\<lparr>obj_x = 64, obj_y = 0, timestamp = 100, object_type = 1, end_time = 100\<rparr>, \<lparr>obj_x = 64, obj_y = 0, timestamp = 200, object_type = 1, end_time = 200\<rparr>])) = 1"
    by (simp add: MAX_KEYS_def)
  have "\<exists>w' tds. clickHitObjects [\<lparr>obj_x = 64, obj_y = 0, timestamp = 100, object_type = 1, end_time = 100\<rparr>, \<lparr>obj_x = 64, obj_y = 0, timestamp = 200, object_type = 1, end_time = 200\<rparr>] 0 0 0 True 30 10 None initial_World = Some (w', tds)
          \<and> length tds = min MAX_KEYS (card (obj_x ` set [\<lparr>obj_x = 64, obj_y = 0, timestamp = 100, object_type = 1, end_time = 100\<rparr>, \<lparr>obj_x = 64, obj_y = 0, timestamp = 200, object_type = 1, end_time = 200\<rparr>]))"
    using lane_count_out_of_range_autodetects [OF range len, of "[\<lparr>obj_x = 64, obj_y = 0, timestamp = 100, object_type = 1, end_time = 100\<rparr>, \<lparr>obj_x = 64, obj_y = 0, timestamp = 200, object_type = 1, end_time = 200\<rparr>]" 0 0 0 True 30 None]
    by (rule conjunct2)
  then show ?thesis
    unfolding one using range len by simp
qed

section \<open>The jitter generator\<close>

lemma generateBellCurveOffset_draws: "snd (generateBellCurveOffset m s) = stl (stl s)"
  by (simp add: generateBellCurveOffset_def rand_def Let_def)

lemma generateBellCurveOffset_zero_draw:
  "shd s = 0 \<Longrightarrow> fst (generateBellCurveOffset m s) = Inl LogOfZero"
  by (simp add: generateBellCurveOffset_def rand_def Let_def)

lemma generateBellCurveOffset_zero_amplitude:
  assumes "shd s \<noteq> 0"
  shows "generateBellCurveOffset 0 s = (Inr 0, stl (stl s))"
  using assms
  by (simp add: generateBellCurveOffset_def rand_def RAND_MAX_def double_to_int_def Let_def)

text \<open>
  C4 does not hold of the source. When \<open>rand\<close> returns 0 for the first draw, \<open>u1\<close> is 0,
  the logarithm is applied to it, and the generator has taken its two draws and no more:
  nothing is drawn again.
\<close>

theorem generateBellCurveOffset_log_of_zero:
  "generateBellCurveOffset 30 (0 ## 5 ## sconst 1) = (Inl LogOfZero, sconst 1)"
  by (simp add: generateBellCurveOffset_def rand_def Let_def)

section \<open>Computed press and release times\<close>

text \<open>
  C2, as stated, fails. With a timing shift of -10 and all jitter draws 0, a tap at 0
  followed by a tap at 40 in the same lane has its release clamped to 35, while the press
  of the second is computed as 30: the release is not before that press minus 5.
\<close>

theorem release_vs_next_press_counterexample:
  "releaseTimeOf \<lparr>obj_x = 64, obj_y = 0, timestamp = 0, object_type = 1, end_time = 0\<rparr> (Some \<lparr>obj_x = 64, obj_y = 0, timestamp = 40, object_type = 1, end_time = 40\<rparr>) 0 (pressTimeOf \<lparr>obj_x = 64, obj_y = 0, timestamp = 0, object_type = 1, end_time = 0\<rparr> 0 0 (- 10)) 0 (- 10) = 35
   \<and> pressTimeOf \<lparr>obj_x = 64, obj_y = 0, timestamp = 40, object_type = 1, end_time = 40\<rparr> 0 0 (- 10) = 30
   \<and> \<not> sint (35 :: int32) \<le> sint (30 :: int32) - 5"
  by (simp add: releaseTimeOf_def pressTimeOf_def)

text \<open>
  The bound of the clamp, \<open>nextObj->timestamp - startTimeAdjustment - 5\<close>, read over the
  integers, where it is representable as an \<open>int\<close>.
\<close>

lemma sint_clamp_bound:
  fixes a b :: int32
  assumes "- 2147483648 \<le> sint a - sint b - 5" and "sint a - sint b - 5 \<le> 2147483647"
  shows "sint (a - b - 5) = sint a - sint b - 5"
proof -
  have "a - b - 5 = word_of_int (sint a - sint b - 5)"
    by simp
  then have "sint (a - b - 5) = signed_take_bit 31 (sint a - sint b - 5)"
    by (simp only: sint_sbintrunc') simp
  also have "\<dots> = sint a - sint b - 5"
    using assms by (intro signed_take_bit_int_eq_self) simp_all
  finally show ?thesis .
qed

text \<open>
  C2, amended. For every lane sequence and every index \<open>i\<close> with a successor, whenever
  the successor's timestamp minus the start-time adjustment minus 5 is representable as an
  \<open>int\<close>, the release time of object \<open>i\<close> after the clamp is at most that number, the
  three read as integers, for all jitter draws and all timing shifts. The bound is the
  successor's press time before its jitter and the timing shift are added.
\<close>

theorem release_clamped_to_next_timestamp:
  assumes "Suc i < td_count data"
    and "- 2147483648 \<le> sint (timestamp (td_objects data ! Suc i))
            - sint (td_startTimeAdjustment data) - 5"
    and "sint (timestamp (td_objects data ! Suc i)) - sint (td_startTimeAdjustment data) - 5
            \<le> 2147483647"
  shows "sint (releaseTimeOf (td_objects data ! i) (nextObjOf data i) (td_startTimeAdjustment data)
             pressTime releaseOffset tshift)
    \<le> sint (timestamp (td_objects data ! Suc i)) - sint (td_startTimeAdjustment data) - 5"
proof -
  let ?n = "td_objects data ! Suc i"
  let ?adj = "td_startTimeAdjustment data"
  have bound: "sint (timestamp ?n - ?adj - 5) = sint (timestamp ?n) - sint ?adj - 5"
    using assms(2,3) by (rule sint_clamp_bound)
  have "sint (releaseTimeOf (td_objects data ! i) (nextObjOf data i) ?adj pressTime releaseOffset tshift)
      \<le> sint (timestamp ?n - ?adj - 5)"
    using assms(1) by (simp add: releaseTimeOf_def nextObjOf_def Let_def)
  with bound show ?thesis
    by simp
qed

theorem release_clamped_to_next_timestamp_witness:
  "Suc 0 < td_count \<lparr>td_objects = [\<lparr>obj_x = 64, obj_y = 0, timestamp = 0, object_type = 1, end_time = 0\<rparr>, \<lparr>obj_x = 64, obj_y = 0, timestamp = 40, object_type = 1, end_time = 40\<rparr>], td_count = 2, td_columnIndex = 0,
       td_startTimeAdjustment = 0, td_enableClicking = True, td_offset = 30\<rparr>
   \<and> - 2147483648 \<le> sint (40 :: int32) - sint (0 :: int32) - 5
   \<and> sint (40 :: int32) - sint (0 :: int32) - 5 \<le> 2147483647
   \<and> sint (releaseTimeOf \<lparr>obj_x = 64, obj_y = 0, timestamp = 0, object_type = 1, end_time = 0\<rparr> (Some \<lparr>obj_x = 64, obj_y = 0, timestamp = 40, object_type = 1, end_time = 40\<rparr>) 0 (- 10) 0 (- 10)) \<le> 35"
proof -
  let ?data = "\<lparr>td_objects = [\<lparr>obj_x = 64, obj_y = 0, timestamp = 0, object_type = 1, end_time = 0\<rparr>, \<lparr>obj_x = 64, obj_y = 0, timestamp = 40, object_type = 1, end_time = 40\<rparr>], td_count = 2, td_columnIndex = 0,
       td_startTimeAdjustment = 0, td_enableClicking = True, td_offset = 30\<rparr>"
  have succ: "Suc 0 < td_count ?data"
    by simp
  have lo: "- 2147483648 \<le> sint (timestamp (td_objects ?data ! Suc 0))
            - sint (td_startTimeAdjustment ?data) - 5"
    by simp
  have hi: "sint (timestamp (td_objects ?data ! Suc 0)) - sint (td_startTimeAdjustment ?data) - 5
            \<le> 2147483647"
    by simp
  show ?thesis
    using release_clamped_to_next_timestamp [OF succ lo hi, of "- 10" 0 "- 10"] succ
    by (simp add: nextObjOf_def)
qed

lemma noteTimes_zero_amplitude:
  assumes "shd s \<noteq> 0" and "shd (stl (stl s)) \<noteq> 0"
  shows "noteTimes 0 tshift adj obj nextObj s =
     (Inr (pressTimeOf obj adj 0 tshift,
           releaseTimeOf obj nextObj adj (pressTimeOf obj adj 0 tshift) 0 tshift),
      stl (stl (stl (stl s))))"
  using assms by (simp add: noteTimes_def generateBellCurveOffset_zero_amplitude Let_def)

text \<open>
  With amplitude, timing shift and start-time adjustment 0, and jitter draws whose first
  uniform values are not 0, the tap at 1000 gets the times 1000 and 1050 and the hold from
  1000 to 1400 gets 1000 and 1400.
\<close>

lemma noteTimes_tap_and_hold:
  assumes "shd s \<noteq> 0" and "shd (stl (stl s)) \<noteq> 0"
  shows "fst (noteTimes 0 0 0 \<lparr>obj_x = 64, obj_y = 0, timestamp = 1000, object_type = 1, end_time = 1000\<rparr> None s) = Inr (1000, 1050)"
    and "fst (noteTimes 0 0 0 \<lparr>obj_x = 64, obj_y = 0, timestamp = 1000, object_type = 128, end_time = 1400\<rparr> None s) = Inr (1000, 1400)"
  using assms by (simp_all add: noteTimes_zero_amplitude pressTimeOf_def releaseTimeOf_def)

text \<open>
  C5 does not hold of the source for every state of the random source: when \<open>rand\<close>
  returns 0 for the first draw of a jitter offset, the logarithm is applied to 0 and no press
  time 1000 is computed, also with the amplitude 0.
\<close>

theorem noteTimes_tap_zero_draw:
  "noteTimes 0 0 0 \<lparr>obj_x = 64, obj_y = 0, timestamp = 1000, object_type = 1, end_time = 1000\<rparr> None (0 ## 5 ## 7 ## 9 ## sconst 1) = (Inl LogOfZero, 7 ## 9 ## sconst 1)"
  by (simp add: noteTimes_def generateBellCurveOffset_def rand_def Let_def)

section \<open>Lane order after auto detection\<close>

text \<open>
  Where no difference of two positions overflows, \<open>compare_ints\<close> orders as \<open>sint\<close>
  does, and the detected lanes are the distinct positions of the input in ascending order:
  they depend on the set of positions only, not on the order of the input.
\<close>

lemma compare_ints_sign:
  assumes "position_in_range a" and "position_in_range b"
  shows "sint (compare_ints a b) \<le> 0 \<longleftrightarrow> sint a \<le> sint b"
proof -
  have "sint (a - b) = signed_take_bit 31 (sint a - sint b)"
    by (simp add: sint_word_ariths)
  also have "\<dots> = sint a - sint b"
    using assms by (intro signed_take_bit_int_eq_self) (simp_all add: position_in_range_def)
  finally show ?thesis
    by (simp add: compare_ints_def)
qed

lemma sorted_qsort_insert:
  assumes "position_in_range a" and "\<forall>v\<in>set xs. position_in_range v" and "sorted (map sint xs)"
  shows "sorted (map sint (qsort_insert compare_ints a xs))"
  using assms
proof (induction xs)
  case Nil
  then show ?case by simp
next
  case (Cons b bs)
  then have sign: "sint (compare_ints a b) \<le> 0 \<longleftrightarrow> sint a \<le> sint b"
    by (intro compare_ints_sign) simp_all
  show ?case
  proof (cases "sint a \<le> sint b")
    case True
    with Cons.prems sign show ?thesis by auto
  next
    case False
    have "sorted (map sint (qsort_insert compare_ints a bs))"
      using Cons by simp
    with False Cons.prems sign show ?thesis
      by (auto simp: set_qsort_insert)
  qed
qed

lemma sorted_qsort:
  assumes "\<forall>v\<in>set xs. position_in_range v"
  shows "sorted (map sint (qsort compare_ints xs))"
  using assms
proof (induction xs)
  case Nil
  then show ?case by (simp add: qsort_def)
next
  case (Cons a xs)
  have "sorted (map sint (qsort_insert compare_ints a (qsort compare_ints xs)))"
    using Cons by (intro sorted_qsort_insert) (simp_all add: set_qsort)
  then show ?case by (simp add: qsort_def)
qed

lemma distinct_qsort:
  assumes "distinct xs"
  shows "distinct (qsort cmp xs)"
proof -
  have "card (set (qsort cmp xs)) = length (qsort cmp xs)"
    using assms by (simp add: set_qsort length_qsort distinct_card)
  then show ?thesis by (rule card_distinct)
qed

lemma set_detect_auto:
  assumes "card (obj_x ` set hs) \<le> MAX_KEYS"
  shows "set (fold (\<lambda>h columns. detect_step columns h) hs []) = obj_x ` set hs"
proof -
  let ?D = "fold (\<lambda>h columns. detect_step columns h) hs []"
  have inv: "distinct ?D" "set ?D \<subseteq> obj_x ` set hs" "length ?D = MAX_KEYS \<or> set ?D = obj_x ` set hs"
    using detect_fold_inv [of "[]" hs] by simp_all
  show ?thesis
  proof (cases "length ?D = MAX_KEYS")
    case True
    then have "card (obj_x ` set hs) \<le> card (set ?D)"
      using assms inv(1) by (simp add: distinct_card)
    then show ?thesis
      using inv(2) by (intro card_seteq) simp_all
  next
    case False
    with inv(3) show ?thesis by simp
  qed
qed

lemma auto_lanes_ascending:
  assumes "\<forall>h\<in>set hs. position_in_range (obj_x h)" and "card (obj_x ` set hs) \<le> MAX_KEYS"
    and "\<not> (0 < sint e \<and> sint e \<le> 9)"
  shows "map sint (qsort compare_ints (detectColumns hs e)) = sorted_list_of_set (sint ` obj_x ` set hs)"
proof -
  let ?D = "fold (\<lambda>h columns. detect_step columns h) hs []"
  let ?Q = "qsort compare_ints ?D"
  have det: "detectColumns hs e = ?D"
    using assms(3) by (rule detectColumns_out_of_range)
  have setD: "set ?D = obj_x ` set hs"
    using assms(2) by (rule set_detect_auto)
  have "distinct ?D"
    using detect_fold_inv [of "[]" hs] by simp
  then have "distinct ?Q"
    by (rule distinct_qsort)
  moreover have "inj_on sint (set ?Q)"
    by (rule inj_onI) (rule signed_word_eqI)
  ultimately have d: "distinct (map sint ?Q)"
    by (simp add: distinct_map)
  have s: "sorted (map sint ?Q)"
    using assms(1) setD by (intro sorted_qsort) auto
  have e: "set (map sint ?Q) = sint ` obj_x ` set hs"
    by (simp add: set_qsort setD)
  have "map sint ?Q = sorted_list_of_set (sint ` obj_x ` set hs)"
    using s d e by (intro sorted_distinct_set_unique) simp_all
  then show ?thesis
    by (simp add: det)
qed

text \<open>
  The four positions of a 4K chart, scrambled and with a repetition, come out in ascending
  order.
\<close>

lemma auto_lanes_4K: "qsort compare_ints (detectColumns
   [\<lparr>obj_x = 448, obj_y = 0, timestamp = 0, object_type = 1, end_time = 0\<rparr>,
    \<lparr>obj_x = 64, obj_y = 0, timestamp = 10, object_type = 1, end_time = 0\<rparr>,
    \<lparr>obj_x = 320, obj_y = 0, timestamp = 20, object_type = 1, end_time = 0\<rparr>,
    \<lparr>obj_x = 192, obj_y = 0, timestamp = 30, object_type = 1, end_time = 0\<rparr>,
    \<lparr>obj_x = 64, obj_y = 0, timestamp = 40, object_type = 1, end_time = 0\<rparr>] 0) = [64, 192, 320, 448]"
  by (simp add: click_eval)

text \<open>
  C7 does not hold of the source for every input: \<open>compare_ints\<close> subtracts, and the
  difference of the positions -2147483648 and 1 wraps around to a positive number. The
  two positions come out as 1, -2147483648, in either input order: not ascending.
\<close>

theorem lane_order_comparator_overflow:
  "qsort compare_ints (detectColumns [\<lparr>obj_x = - 2147483648, obj_y = 0, timestamp = 0, object_type = 1, end_time = 0\<rparr>, \<lparr>obj_x = 1, obj_y = 0, timestamp = 0, object_type = 1, end_time = 0\<rparr>] 0) = [1, - 2147483648]
   \<and> qsort compare_ints (detectColumns [\<lparr>obj_x = 1, obj_y = 0, timestamp = 0, object_type = 1, end_time = 0\<rparr>, \<lparr>obj_x = - 2147483648, obj_y = 0, timestamp = 0, object_type = 1, end_time = 0\<rparr>] 0) = [1, - 2147483648]
   \<and> sint (- 2147483648 :: int32) < sint (1 :: int32)"
  by (simp add: click_eval)

section \<open>Lane players and cancellation\<close>

lemma columnPlayer_step_observes_stop:
  assumes "at_stop_check l" and "stopClicking w"
  shows "columnPlayer_step now l w s = (l\<lparr>lane_pc := Returned\<rparr>, w, s)"
  using assms by (auto simp: at_stop_check_def columnPlayer_step_def)

lemma columnPlayer_step_Returned:
  assumes "lane_pc l = Returned"
  shows "columnPlayer_step now l w s = (l, w, s)"
  using assms by (simp add: columnPlayer_step_def)

lemma length_lanes_step: "length (sys_lanes (step a sys)) = length (sys_lanes sys)"
  by (cases a) (auto simp: run_lane_def split: prod.splits)

lemma run_lane_Returned:
  assumes "k < length (sys_lanes sys)" and "lane_pc (sys_lanes sys ! k) = Returned"
  shows "run_lane k sys = sys"
  using assms by (simp add: run_lane_def columnPlayer_step_Returned)

lemma run_lane_other:
  assumes "j \<noteq> k"
  shows "sys_lanes (run_lane j sys) ! k = sys_lanes sys ! k"
  using assms by (auto simp: run_lane_def split: prod.splits)

lemma step_keeps_Returned:
  assumes "k < length (sys_lanes sys)" and "lane_pc (sys_lanes sys ! k) = Returned"
  shows "lane_pc (sys_lanes (step a sys) ! k) = Returned"
proof (cases a)
  case (Run j)
  show ?thesis
  proof (cases "j = k")
    case True
    with Run assms show ?thesis by (simp add: run_lane_Returned)
  next
    case False
    with Run assms show ?thesis by (simp add: run_lane_other)
  qed
qed (use assms in simp_all)

lemma emitted_by_Returned:
  assumes "k < length (sys_lanes sys)" and "lane_pc (sys_lanes sys ! k) = Returned"
  shows "emitted_by k acts sys = [] \<and> lane_pc (sys_lanes (exec acts sys) ! k) = Returned"
  using assms
proof (induction acts arbitrary: sys)
  case Nil
  then show ?case by (simp add: exec_def)
next
  case (Cons a acts)
  have len: "k < length (sys_lanes (step a sys))"
    using Cons.prems(1) by (simp add: length_lanes_step)
  have ret: "lane_pc (sys_lanes (step a sys) ! k) = Returned"
    using Cons.prems by (rule step_keeps_Returned)
  have quiet: "a = Run k \<Longrightarrow> step a sys = sys"
    using Cons.prems by (simp add: run_lane_Returned)
  from Cons.IH [OF len ret] quiet show ?case
    by (auto simp: exec_def)
qed

lemma observed_stop_ends_lane:
  assumes "k < length (sys_lanes sys)" and "at_stop_check (sys_lanes sys ! k)"
    and "stopClicking (sys_world sys)"
  shows "emitted_by k (Run k # acts) sys = []
    \<and> lane_pc (sys_lanes (exec (Run k # acts) sys) ! k) = Returned"
proof -
  let ?sys = "run_lane k sys"
  have st: "?sys = sys\<lparr>sys_lanes := (sys_lanes sys)[k := (sys_lanes sys ! k)\<lparr>lane_pc := Returned\<rparr>]\<rparr>"
    using assms by (simp add: run_lane_def columnPlayer_step_observes_stop)
  have len: "k < length (sys_lanes ?sys)"
    using assms(1) by (simp add: st)
  have ret: "lane_pc (sys_lanes ?sys ! k) = Returned"
    using assms(1) by (simp add: st)
  have same: "sent (sys_world ?sys) = sent (sys_world sys)"
    by (simp add: st)
  from emitted_by_Returned [OF len ret, of acts] show ?thesis
    using same by (simp add: exec_def)
qed

lemma stop_call_releases:
  assumes "length (keyStates (sys_world sys)) = MAX_KEYS"
  shows "sent (sys_world (step (CallSetStopClicking v) sys)) =
     sent (sys_world sys) @ map (\<lambda>k. KeyUp (key k)) (filter is_pressed (keyStates (sys_world sys)))"
proof -
  have "length (keyStates ((sys_world sys)\<lparr>stopClicking := v\<rparr>)) = MAX_KEYS"
    using assms by simp
  from releaseAllKeys_eq [OF this] show ?thesis
    by (simp add: setStopClicking_def)
qed

lemma nextObjOf_forget: "nextObjOf (forget_offset data) i = nextObjOf data i"
  by (simp add: nextObjOf_def forget_offset_def)

lemma forget_offset_fields:
  "td_objects (forget_offset data) = td_objects data"
  "td_count (forget_offset data) = td_count data"
  "td_columnIndex (forget_offset data) = td_columnIndex data"
  "td_startTimeAdjustment (forget_offset data) = td_startTimeAdjustment data"
  "td_enableClicking (forget_offset data) = td_enableClicking data"
  by (simp_all add: forget_offset_def)

lemma columnPlayer_step_forget:
  "columnPlayer_step now (forget_lane l) w s =
     (case columnPlayer_step now l w s of (l', w', s') \<Rightarrow> (forget_lane l', w', s'))"
  by (cases "lane_pc l")
     (auto simp: columnPlayer_step_def forget_lane_def nextObjOf_forget Let_def forget_offset_fields
           split: prod.splits sum.splits)

lemma run_lane_forget: "run_lane k (forget_sys sys) = forget_sys (run_lane k sys)"
  by (auto simp: run_lane_def forget_sys_def columnPlayer_step_forget map_update split: prod.splits)

lemma step_forget: "step a (forget_sys sys) = forget_sys (step a sys)"
  by (cases a) (simp_all add: run_lane_forget, simp_all add: forget_sys_def)

lemma exec_forget: "exec acts (forget_sys sys) = forget_sys (exec acts sys)"
  by (induction acts arbitrary: sys) (simp_all add: exec_def step_forget)

lemma startSession_forget:
  "forget_sys (startSession w datas now s) = startSession w (map forget_offset datas) now s"
  by (simp add: forget_sys_def startSession_def forget_lane_def spawn_def)

lemmas run_eval =
  exec_def run_lane_def columnPlayer_step_def startSession_def spawn_def
  noteTimes_zero_amplitude pressTimeOf_def releaseTimeOf_def nextObjOf_def
  pressKey_def releaseKey_def set_pressed_def setOffset_def initial_World_def nine_copies

lemma stuck_session:
  "clickHitObjects [\<lparr>obj_x = 64, obj_y = 0, timestamp = 1000, object_type = 1, end_time = 1000\<rparr>] 0 0 0 True 30 0 None (setOffset 0 initial_World)
     = Some (stuck_world, [stuck_data])"
  by (simp add: click_eval stuck_world_def stuck_data_def setOffset_def nine_copies)

lemma stuck_before_stop:
  "exec (take 6 stuck_schedule) (startSession stuck_world [stuck_data] 0 (sconst 1)) =
     \<lparr>sys_world = stuck_world,
      sys_lanes = [\<lparr>lane_data = stuck_data, lane_pc = DoPress, lane_i = 0, lane_startTime = 0,
                   lane_elapsedTime = 1020, lane_pressTime = 1000, lane_releaseTime = 1050\<rparr>],
      sys_now = 1020, sys_rand = sconst 1\<rparr>"
  by (simp add: stuck_schedule_def stuck_world_def stuck_data_def run_eval)

text \<open>
  C8 does not hold of the source in every interleaving. In the scenario the lane has left
  the wait loop of line 128 when the stop operation sets the flag and scans
  \<open>keyStates\<close>; the scan finds no key pressed and sends nothing. The lane then sends the
  key-down, sets \<open>is_pressed\<close>, observes the flag in the loop of line 139 and returns. The
  log ends with the key-down of the space key: the key is never released.
\<close>

theorem cancellation_leaves_key_down:
  "clickHitObjects [\<lparr>obj_x = 64, obj_y = 0, timestamp = 1000, object_type = 1, end_time = 1000\<rparr>] 0 0 0 True 30 0 None (setOffset 0 initial_World)
     = Some (stuck_world, [stuck_data])
   \<and> sent (sys_world (exec stuck_schedule (startSession stuck_world [stuck_data] 0 (sconst 1))))
     = [KeyDown 0x20]
   \<and> stopClicking (sys_world (exec stuck_schedule (startSession stuck_world [stuck_data] 0 (sconst 1))))
   \<and> map lane_pc (sys_lanes (exec stuck_schedule (startSession stuck_world [stuck_data] 0 (sconst 1))))
     = [Returned]
   \<and> map is_pressed (take 1 (keyStates (sys_world
         (exec stuck_schedule (startSession stuck_world [stuck_data] 0 (sconst 1)))))) = [True]"
proof -
  let ?mid = "\<lparr>sys_world = stuck_world,
      sys_lanes = [\<lparr>lane_data = stuck_data, lane_pc = DoPress, lane_i = 0, lane_startTime = 0,
                   lane_elapsedTime = 1020, lane_pressTime = 1000, lane_releaseTime = 1050\<rparr>],
      sys_now = 1020, sys_rand = sconst 1\<rparr>"
  have split: "stuck_schedule = take 6 stuck_schedule @ [CallSetStopClicking True, Run 0, Run 0, Run 0]"
    by (simp add: stuck_schedule_def)
  have scan: "setStopClicking True stuck_world = stuck_world\<lparr>stopClicking := True\<rparr>"
    by (simp add: setStopClicking_def releaseAllKeys_def releaseAt_def stuck_world_def
        setOffset_def initial_World_def nine_copies MAX_KEYS_def upt_rec)
  have "exec stuck_schedule (startSession stuck_world [stuck_data] 0 (sconst 1))
      = exec [CallSetStopClicking True, Run 0, Run 0, Run 0] ?mid"
    using stuck_before_stop by (subst split) (simp add: exec_def)
  also have "\<dots> = exec [Run 0, Run 0, Run 0] (?mid\<lparr>sys_world := stuck_world\<lparr>stopClicking := True\<rparr>\<rparr>)"
    by (simp add: exec_def scan)
  finally have "exec stuck_schedule (startSession stuck_world [stuck_data] 0 (sconst 1))
      = exec [Run 0, Run 0, Run 0] (?mid\<lparr>sys_world := stuck_world\<lparr>stopClicking := True\<rparr>\<rparr>)" .
  then show ?thesis
    using stuck_session by (simp add: stuck_world_def stuck_data_def run_eval)
qed

section \<open>The arguments that are not read\<close>

lemma clickHitObjects_unused:
  assumes "clickHitObjects hs u1 u2 adj en off e ck w = Some (w1, tds1)"
  shows "clickHitObjects hs u1' u2' adj en off' e ck w
     = Some (w1, map (\<lambda>d. d\<lparr>td_offset := off'\<rparr>) tds1)"
  using assms by (auto simp: clickHitObjects_def Let_def split: option.splits)

lemma forget_offset_update: "forget_offset (d\<lparr>td_offset := v\<rparr>) = forget_offset d"
  by (simp add: forget_offset_def)

lemma exec_forget_start:
  assumes "map forget_offset tds2 = map forget_offset tds1"
  shows "forget_sys (exec acts (startSession w tds2 now s))
     = forget_sys (exec acts (startSession w tds1 now s))"
  using assms by (simp add: startSession_forget flip: exec_forget)

lemma forget_sys_observables:
  assumes "forget_sys a = forget_sys b"
  shows "sys_world a = sys_world b"
    and "map lane_pc (sys_lanes a) = map lane_pc (sys_lanes b)"
    and "map lane_pressTime (sys_lanes a) = map lane_pressTime (sys_lanes b)"
    and "map lane_releaseTime (sys_lanes a) = map lane_releaseTime (sys_lanes b)"
proof -
  have w: "sys_world (forget_sys c) = sys_world c" for c
    by (simp add: forget_sys_def)
  have p: "map lane_pc (sys_lanes (forget_sys c)) = map lane_pc (sys_lanes c)" for c
    by (simp add: forget_sys_def forget_lane_def comp_def)
  have t: "map lane_pressTime (sys_lanes (forget_sys c)) = map lane_pressTime (sys_lanes c)" for c
    by (simp add: forget_sys_def forget_lane_def comp_def)
  have r: "map lane_releaseTime (sys_lanes (forget_sys c)) = map lane_releaseTime (sys_lanes c)" for c
    by (simp add: forget_sys_def forget_lane_def comp_def)
  show "sys_world a = sys_world b"
    using w [of a] w [of b] assms by simp
  show "map lane_pc (sys_lanes a) = map lane_pc (sys_lanes b)"
    using p [of a] p [of b] assms by simp
  show "map lane_pressTime (sys_lanes a) = map lane_pressTime (sys_lanes b)"
    using t [of a] t [of b] assms by simp
  show "map lane_releaseTime (sys_lanes a) = map lane_releaseTime (sys_lanes b)"
    using r [of a] r [of b] assms by simp
qed

text \<open>
  C9. Two calls of \<open>clickHitObjects\<close> that differ only in the two unused integers and in
  the jitter-amplitude argument bind the same keys and build the same lanes, up to the
  field \<open>offset\<close> of the \<open>ThreadData\<close>, which no lane reads: under every schedule, clock
  and random source the two sessions have the same shared world (key bindings, pressed
  flags and the log of key events) and the same program points and computed press and
  release times in every lane. The amplitude of every jitter draw is the variable
  \<open>offset\<close> of the world.
\<close>

theorem unused_arguments_have_no_effect:
  assumes "clickHitObjects hs u1 u2 adj en off e ck w = Some (w1, tds1)"
  shows "\<exists>tds2. clickHitObjects hs u1' u2' adj en off' e ck w = Some (w1, tds2)
      \<and> map forget_offset tds2 = map forget_offset tds1
      \<and> (\<forall>acts now s.
            sys_world (exec acts (startSession w1 tds2 now s))
              = sys_world (exec acts (startSession w1 tds1 now s))
          \<and> map lane_pc (sys_lanes (exec acts (startSession w1 tds2 now s)))
              = map lane_pc (sys_lanes (exec acts (startSession w1 tds1 now s)))
          \<and> map lane_pressTime (sys_lanes (exec acts (startSession w1 tds2 now s)))
              = map lane_pressTime (sys_lanes (exec acts (startSession w1 tds1 now s)))
          \<and> map lane_releaseTime (sys_lanes (exec acts (startSession w1 tds2 now s)))
              = map lane_releaseTime (sys_lanes (exec acts (startSession w1 tds1 now s))))"
proof -
  let ?tds2 = "map (\<lambda>d. d\<lparr>td_offset := off'\<rparr>) tds1"
  have call: "clickHitObjects hs u1' u2' adj en off' e ck w = Some (w1, ?tds2)"
    using assms by (rule clickHitObjects_unused)
  have same: "map forget_offset ?tds2 = map forget_offset tds1"
    by (simp add: forget_offset_update comp_def)
  have "forget_sys (exec acts (startSession w1 ?tds2 now s))
      = forget_sys (exec acts (startSession w1 tds1 now s))" for acts now s
    using same by (rule exec_forget_start)
  then have "\<forall>acts now s.
            sys_world (exec acts (startSession w1 ?tds2 now s))
              = sys_world (exec acts (startSession w1 tds1 now s))
          \<and> map lane_pc (sys_lanes (exec acts (startSession w1 ?tds2 now s)))
              = map lane_pc (sys_lanes (exec acts (startSession w1 tds1 now s)))
          \<and> map lane_pressTime (sys_lanes (exec acts (startSession w1 ?tds2 now s)))
              = map lane_pressTime (sys_lanes (exec acts (startSession w1 tds1 now s)))
          \<and> map lane_releaseTime (sys_lanes (exec acts (startSession w1 ?tds2 now s)))
              = map lane_releaseTime (sys_lanes (exec acts (startSession w1 tds1 now s)))"
    by (intro allI conjI forget_sys_observables)
  with call same show ?thesis
    by blast
qed

theorem unused_arguments_have_no_effect_witness:
  "clickHitObjects [\<lparr>obj_x = 64, obj_y = 0, timestamp = 1000, object_type = 1, end_time = 1000\<rparr>] 0 0 0 True 30 0 None initial_World
     = Some (initial_World\<lparr>keyStates := (keyStates initial_World)[0 := \<lparr>key = 0x20, press_time = 0, release_time = 0, is_pressed = False\<rparr>]\<rparr>,
             [\<lparr>td_objects = [\<lparr>obj_x = 64, obj_y = 0, timestamp = 1000, object_type = 1, end_time = 1000\<rparr>], td_count = 1, td_columnIndex = 0, td_startTimeAdjustment = 0, td_enableClicking = True, td_offset = 30\<rparr>])
   \<and> clickHitObjects [\<lparr>obj_x = 64, obj_y = 0, timestamp = 1000, object_type = 1, end_time = 1000\<rparr>] 7 8 0 True 99 0 None initial_World
     = Some (initial_World\<lparr>keyStates := (keyStates initial_World)[0 := \<lparr>key = 0x20, press_time = 0, release_time = 0, is_pressed = False\<rparr>]\<rparr>,
             [\<lparr>td_objects = [\<lparr>obj_x = 64, obj_y = 0, timestamp = 1000, object_type = 1, end_time = 1000\<rparr>], td_count = 1, td_columnIndex = 0, td_startTimeAdjustment = 0, td_enableClicking = True, td_offset = 99\<rparr>])
   \<and> sys_world (exec [Run 0, Advance 5, Run 0, Run 0]
         (startSession (initial_World\<lparr>keyStates := (keyStates initial_World)[0 := \<lparr>key = 0x20, press_time = 0, release_time = 0, is_pressed = False\<rparr>]\<rparr>)
            [\<lparr>td_objects = [\<lparr>obj_x = 64, obj_y = 0, timestamp = 1000, object_type = 1, end_time = 1000\<rparr>], td_count = 1, td_columnIndex = 0, td_startTimeAdjustment = 0, td_enableClicking = True, td_offset = 99\<rparr>] 0 (sconst 1)))
     = sys_world (exec [Run 0, Advance 5, Run 0, Run 0]
         (startSession (initial_World\<lparr>keyStates := (keyStates initial_World)[0 := \<lparr>key = 0x20, press_time = 0, release_time = 0, is_pressed = False\<rparr>]\<rparr>)
            [\<lparr>td_objects = [\<lparr>obj_x = 64, obj_y = 0, timestamp = 1000, object_type = 1, end_time = 1000\<rparr>], td_count = 1, td_columnIndex = 0, td_startTimeAdjustment = 0, td_enableClicking = True, td_offset = 30\<rparr>] 0 (sconst 1)))"
proof -
  let ?w = "initial_World\<lparr>keyStates := (keyStates initial_World)[0 := \<lparr>key = 0x20, press_time = 0, release_time = 0, is_pressed = False\<rparr>]\<rparr>"
  let ?d = "\<lparr>td_objects = [\<lparr>obj_x = 64, obj_y = 0, timestamp = 1000, object_type = 1, end_time = 1000\<rparr>], td_count = 1, td_columnIndex = 0, td_startTimeAdjustment = 0, td_enableClicking = True, td_offset = 30\<rparr>"
  let ?d' = "\<lparr>td_objects = [\<lparr>obj_x = 64, obj_y = 0, timestamp = 1000, object_type = 1, end_time = 1000\<rparr>], td_count = 1, td_columnIndex = 0, td_startTimeAdjustment = 0, td_enableClicking = True, td_offset = 99\<rparr>"
  have first: "clickHitObjects [\<lparr>obj_x = 64, obj_y = 0, timestamp = 1000, object_type = 1, end_time = 1000\<rparr>] 0 0 0 True 30 0 None initial_World = Some (?w, [?d])"
    by (simp add: click_eval nine_copies)
  have second: "clickHitObjects [\<lparr>obj_x = 64, obj_y = 0, timestamp = 1000, object_type = 1, end_time = 1000\<rparr>] 7 8 0 True 99 0 None initial_World = Some (?w, [?d'])"
    by (simp add: click_eval nine_copies)
  from unused_arguments_have_no_effect [OF first, of 7 8 99] second
  have "sys_world (exec [Run 0, Advance 5, Run 0, Run 0] (startSession ?w [?d'] 0 (sconst 1)))
      = sys_world (exec [Run 0, Advance 5, Run 0, Run 0] (startSession ?w [?d] 0 (sconst 1)))"
    by auto
  with first second show ?thesis
    by blast
qed

end
